theory Spec2Isabelle
  imports Main "HOL-Library.Sublist"
begin

section \<open>The enum translator of \<^verbatim>\<open>generator/gen/js_enum.py\<close>\<close>

text \<open>
  The module reads a TypeScript-like \<^verbatim>\<open>export enum\<close> declaration and writes it
  back as a Rust macro invocation. Python strings are modelled as \<^typ>\<open>string\<close>;
  a \<^typ>\<open>char\<close> stands for the code point of the same number, so the texts
  covered are those over the code points below 256.
\<close>

subsection \<open>Characters\<close>

definition dquote :: char where
  "dquote = CHR 0x22"

definition newline :: char where
  "newline = CHR 0x0A"

text \<open>
  The decimal digits \<^verbatim>\<open>0\<close> to \<^verbatim>\<open>9\<close>.
\<close>

definition is_digit :: "char \<Rightarrow> bool" where
  "is_digit c = (let n = (of_char c :: nat) in 48 \<le> n \<and> n \<le> 57)"

text \<open>
  The characters Python's \<^verbatim>\<open>str.isnumeric\<close> accepts are those with a Unicode
  numeric type (decimal, digit or numeric). Below code point 256 these are the ten
  decimal digits, the superscripts U+00B2, U+00B3, U+00B9 and the fractions U+00BC,
  U+00BD, U+00BE.
\<close>

definition is_numeric_char :: "char \<Rightarrow> bool" where
  "is_numeric_char c =
     (let n = (of_char c :: nat)
      in (48 \<le> n \<and> n \<le> 57) \<or> n = 178 \<or> n = 179 \<or> n = 185 \<or> n = 188 \<or> n = 189 \<or> n = 190)"

text \<open>
  \<^verbatim>\<open>str.isnumeric()\<close>: at least one character, and all of them numeric.
\<close>

definition isnumeric :: "string \<Rightarrow> bool" where
  "isnumeric s = (s \<noteq> [] \<and> list_all is_numeric_char s)"

text \<open>
  \<^verbatim>\<open>s.startswith('"')\<close>.
\<close>

definition startswith_dquote :: "string \<Rightarrow> bool" where
  "startswith_dquote s = (case s of [] \<Rightarrow> False | c # _ \<Rightarrow> c = dquote)"

subsection \<open>Data model\<close>

text \<open>
  \<^verbatim>\<open>Documented\<close> (imported from \<^verbatim>\<open>.models\<close>) carries the optional
  documentation lines; \<^verbatim>\<open>Variant\<close> and \<^verbatim>\<open>JsEnum\<close> are dataclasses that
  extend it. The field \<^verbatim>\<open>ident\<close> exists in both classes, hence the prefixes.
\<close>

type_synonym documentation = "string list option"

record documented =
  documentation :: documentation

record variant = documented +
  v_ident :: string
  v_value :: string

record js_enum = documented +
  e_ident :: string
  variants :: "variant list"

text \<open>
  The two Python types \<^verbatim>\<open>str\<close> and \<^verbatim>\<open>int\<close> that classification returns.
\<close>

datatype py_type = PyStr | PyInt

text \<open>
  Exceptions as values. The two \<^verbatim>\<open>TypeError\<close>s differ in their message, and
  each message prints the object it is about.
\<close>

datatype error =
    ParseError
  | TypeError_cant_infer variant
  | TypeError_conflicting js_enum
  | ValueError_empty_enum js_enum
  | KeyError py_type

fun is_TypeError :: "error \<Rightarrow> bool" where
  "is_TypeError (TypeError_cant_infer _) = True"
| "is_TypeError (TypeError_conflicting _) = True"
| "is_TypeError _ = False"

fun is_ValueError :: "error \<Rightarrow> bool" where
  "is_ValueError (ValueError_empty_enum _) = True"
| "is_ValueError _ = False"

subsection \<open>Classification and type inference\<close>

text \<open>
  \<^verbatim>\<open>Variant.get_value_type\<close>: the double-quote test first, then
  \<^verbatim>\<open>isnumeric\<close>, then the \<^verbatim>\<open>TypeError\<close>.
\<close>

definition Variant_get_value_type :: "variant \<Rightarrow> error + py_type" where
  "Variant_get_value_type self =
     (if startswith_dquote (v_value self) then Inr PyStr
      else if isnumeric (v_value self) then Inr PyInt
      else Inl (TypeError_cant_infer self))"

text \<open>
  \<^verbatim>\<open>all(ty == first_ty for ty in it)\<close> over the rest of the generator
  \<^verbatim>\<open>it\<close>: each variant is classified only when the loop reaches it, an
  exception of the classifier leaves the loop, and the first differing type ends it
  with \<^verbatim>\<open>False\<close>.
\<close>

fun all_same_type :: "py_type \<Rightarrow> variant list \<Rightarrow> error + bool" where
  "all_same_type first_ty [] = Inr True"
| "all_same_type first_ty (v # vs) =
     (case Variant_get_value_type v of
        Inl e \<Rightarrow> Inl e
      | Inr ty \<Rightarrow> if ty = first_ty then all_same_type first_ty vs else Inr False)"

text \<open>
  \<^verbatim>\<open>JsEnum.get_value_type\<close>: \<^verbatim>\<open>next(it)\<close> on the empty generator is the
  \<^verbatim>\<open>ValueError\<close>; otherwise the first variant is classified, then the rest are
  compared with it.
\<close>

definition JsEnum_get_value_type :: "js_enum \<Rightarrow> error + py_type" where
  "JsEnum_get_value_type self =
     (case variants self of
        [] \<Rightarrow> Inl (ValueError_empty_enum self)
      | v # vs \<Rightarrow>
          (case Variant_get_value_type v of
             Inl e \<Rightarrow> Inl e
           | Inr first_ty \<Rightarrow>
               (case all_same_type first_ty vs of
                  Inl e \<Rightarrow> Inl e
                | Inr same \<Rightarrow>
                    if \<not> same then Inl (TypeError_conflicting self) else Inr first_ty)))"

text \<open>
  \<^verbatim>\<open>_TYPE2MACRO\<close>, a dictionary with two keys, and \<^verbatim>\<open>JsEnum.macro\<close>, which
  looks the inferred type up in it.
\<close>

definition TYPE2MACRO :: "py_type \<rightharpoonup> string" where
  "TYPE2MACRO = [PyInt \<mapsto> ''int_enum!'', PyStr \<mapsto> ''str_enum!'']"

definition JsEnum_macro :: "js_enum \<Rightarrow> error + string" where
  "JsEnum_macro self =
     (case JsEnum_get_value_type self of
        Inl e \<Rightarrow> Inl e
      | Inr ty \<Rightarrow> (case TYPE2MACRO ty of None \<Rightarrow> Inl (KeyError ty) | Some m \<Rightarrow> Inr m))"

subsection \<open>The helpers this module imports\<close>

text \<open>
  \<^verbatim>\<open>snake_to_camel_case\<close> and \<^verbatim>\<open>add_indent\<close> (from \<^verbatim>\<open>.helpers\<close>) and the
  methods \<^verbatim>\<open>Documented.consume\<close> and \<^verbatim>\<open>rust_documentation\<close> (from
  \<^verbatim>\<open>.models\<close>) are not part of this module, and the casing rule, the width of an
  indentation level and the two comment syntaxes are not fixed anywhere. They are
  parameters of the model: every function below that calls one of them takes the record
  \<open>H\<close>, and the theorems are about all of them, under the hypotheses they state.
  \<^verbatim>\<open>rust_documentation\<close> reads only the documentation of its object, so it is a
  function of that field; the empty string stands for "nothing to emit".
\<close>

record helpers =
  snake_to_camel_case :: "string \<Rightarrow> string"
  add_indent :: "string \<Rightarrow> string"
  rust_documentation :: "documentation \<Rightarrow> string"
  doc_consume :: "string \<Rightarrow> documentation \<times> string"

text \<open>
  \<^verbatim>\<open>sep.join(parts)\<close>.
\<close>

fun str_join :: "string \<Rightarrow> string list \<Rightarrow> string" where
  "str_join sep [] = []"
| "str_join sep [x] = x"
| "str_join sep (x # y # ys) = x @ sep @ str_join sep (y # ys)"

text \<open>
  Modelled from the spec: \<^verbatim>\<open>join_nonempty_lines\<close> of \<^verbatim>\<open>.helpers\<close> is missing from
  the sources. The variant rendering "emits any documentation lines, then emits the
  variant line": the parts that are not empty, joined by newlines.
\<close>

definition join_nonempty_lines :: "string list \<Rightarrow> string" where
  "join_nonempty_lines parts = str_join [newline] (filter (\<lambda>p. p \<noteq> []) parts)"

text \<open>
  Modelled from the spec: \<^verbatim>\<open>consume_match\<close> of \<^verbatim>\<open>.helpers\<close> is missing from the
  sources. "Given a fixed recognizer anchored to the start of the text and the text, fail
  with a ParseError if the text does not begin with a match; otherwise return the matched
  named captures and the remaining text with the match removed." A recognizer returns
  its captures and the length of the match.
\<close>

definition consume_match :: "(string \<Rightarrow> ('g \<times> nat) option) \<Rightarrow> string \<Rightarrow> error + ('g \<times> string)" where
  "consume_match pattern s =
     (case pattern s of
        None \<Rightarrow> Inl ParseError
      | Some (g, n) \<Rightarrow> Inr (g, drop n s))"

text \<open>
  Modelled from the spec: \<^verbatim>\<open>consume_empty_lines\<close> of \<^verbatim>\<open>.helpers\<close> is missing from
  the sources. "Remove any run of empty lines at the current position; idempotent, never
  fails."
\<close>

definition consume_empty_lines :: "string \<Rightarrow> string" where
  "consume_empty_lines s = dropWhile (\<lambda>c. c = newline) s"

text \<open>
  Modelled from the spec: \<^verbatim>\<open>read_until_closing_bracket\<close> of \<^verbatim>\<open>.helpers\<close> is missing
  from the sources. "Given text beginning just after an opening bracket, scan forward
  tracking nesting depth of same-kind brackets, and return the substring up to (but not
  including) the matching closing bracket at depth zero, plus the remaining text after
  that closing bracket. Fails with ParseError if the closing bracket is never found."
  The brackets of an enum body are braces.
\<close>

fun scan_bracket :: "nat \<Rightarrow> string \<Rightarrow> error + (string \<times> string)" where
  "scan_bracket depth [] = Inl ParseError"
| "scan_bracket depth (c # cs) =
     (if c = CHR ''}'' \<and> depth = 0 then Inr ([], cs)
      else
        (case scan_bracket (if c = CHR ''{'' then depth + 1 else if c = CHR ''}'' then depth - 1 else depth) cs of
           Inl e \<Rightarrow> Inl e
         | Inr (inner, rest) \<Rightarrow> Inr (c # inner, rest)))"

definition read_until_closing_bracket :: "string \<Rightarrow> error + (string \<times> string)" where
  "read_until_closing_bracket s = scan_bracket 0 s"

subsection \<open>The two patterns\<close>

text \<open>
  The characters \<^verbatim>\<open>\w\<close> matches in a Python \<^verbatim>\<open>str\<close> pattern are the alphanumeric
  ones and the underscore. Below code point 256 the letters are A-Z, a-z, U+00AA, U+00B5,
  U+00BA, U+00C0-U+00D6, U+00D8-U+00F6 and U+00F8-U+00FF.
\<close>

definition is_alpha_char :: "char \<Rightarrow> bool" where
  "is_alpha_char c =
     (let n = (of_char c :: nat)
      in (65 \<le> n \<and> n \<le> 90) \<or> (97 \<le> n \<and> n \<le> 122) \<or> n = 170 \<or> n = 181 \<or> n = 186 \<or>
         (192 \<le> n \<and> n \<le> 214) \<or> (216 \<le> n \<and> n \<le> 246) \<or> (248 \<le> n \<and> n \<le> 255))"

definition is_word :: "char \<Rightarrow> bool" where
  "is_word c = (is_alpha_char c \<or> is_numeric_char c \<or> c = CHR ''_'')"

definition is_space :: "char \<Rightarrow> bool" where
  "is_space c = (c = CHR '' '')"

text \<open>
  \<^verbatim>\<open>.+?,\n\<close>: the shortest non-empty run of characters other than the newline that
  is followed by a comma and a newline.
\<close>

fun lazy_until_comma_newline :: "string \<Rightarrow> string option" where
  "lazy_until_comma_newline [] = None"
| "lazy_until_comma_newline (c # cs) =
     (if c = newline then None
      else if take 2 cs = [CHR '','', newline] then Some [c]
      else map_option ((#) c) (lazy_until_comma_newline cs))"

text \<open>
  \<^verbatim>\<open>_PATTERN_VARIANT = re.compile(r"^ *(?P<ident>\w+) = (?P<value>.+?),\n")\<close>, matched
  at the start of the text. A space is not a word character, so the greedy \<^verbatim>\<open> *\<close>
  and \<^verbatim>\<open>\w+\<close> take the whole run of spaces and the whole run of word characters:
  giving a character back leaves the next item facing a character it cannot match. The
  result is the pair of captures and the length of the match.
\<close>

definition PATTERN_VARIANT :: "string \<Rightarrow> ((string \<times> string) \<times> nat) option" where
  "PATTERN_VARIANT s =
     (let spaces = takeWhile is_space s;
          s1 = dropWhile is_space s;
          ident = takeWhile is_word s1;
          s2 = dropWhile is_word s1
      in if ident = [] then None
         else if take 3 s2 = '' = '' then
           (case lazy_until_comma_newline (drop 3 s2) of
              None \<Rightarrow> None
            | Some val \<Rightarrow> Some ((ident, val), length spaces + length ident + 3 + length val + 2))
         else None)"

text \<open>
  \<^verbatim>\<open>_PATTERN_ENUM_OPEN = re.compile(r"^ *export enum (?P<ident>\w+) \{\n")\<close>.
\<close>

definition PATTERN_ENUM_OPEN :: "string \<Rightarrow> (string \<times> nat) option" where
  "PATTERN_ENUM_OPEN s =
     (let spaces = takeWhile is_space s;
          s1 = dropWhile is_space s
      in if take 12 s1 = ''export enum '' then
           (let ident = takeWhile is_word (drop 12 s1);
                s2 = dropWhile is_word (drop 12 s1)
            in if ident = [] then None
               else if take 3 s2 = [CHR '' '', CHR ''{'', newline] then
                 Some (ident, length spaces + 12 + length ident + 3)
               else None)
         else None)"

subsection \<open>Parsing\<close>

text \<open>
  \<^verbatim>\<open>Variant.consume\<close>: the documentation, the variant line, the empty lines after it.
\<close>

definition Variant_consume :: "helpers \<Rightarrow> string \<Rightarrow> error + (variant \<times> string)" where
  "Variant_consume H s =
     (case doc_consume H s of
        (doc, s1) \<Rightarrow>
          (case consume_match PATTERN_VARIANT s1 of
             Inl e \<Rightarrow> Inl e
           | Inr ((m_ident, m_value), s2) \<Rightarrow>
               (let s3 = consume_empty_lines s2
                in Inr (\<lparr>documentation = doc, v_ident = m_ident, v_value = m_value\<rparr>, s3))))"

text \<open>
  The loop \<^verbatim>\<open>while body: variant, body = Variant.consume(body); variants.append(variant)\<close>.
  Nothing in this module makes the body shorter, so the loop is a partial function:
  \<open>None\<close> is a loop that does not end.
\<close>

partial_function (option) consume_variants :: "helpers \<Rightarrow> string \<Rightarrow> variant list \<Rightarrow> (error + variant list) option" where
  "consume_variants H body vs =
     (if body = [] then Some (Inr vs)
      else
        (case Variant_consume H body of
           Inl e \<Rightarrow> Some (Inl e)
         | Inr (v, body') \<Rightarrow> consume_variants H body' (vs @ [v])))"

text \<open>
  \<^verbatim>\<open>JsEnum.consume\<close>: the documentation, the header, the bracketed body, the empty
  lines after it, then the variants of the body.
\<close>

definition JsEnum_consume :: "helpers \<Rightarrow> string \<Rightarrow> (error + (js_enum \<times> string)) option" where
  "JsEnum_consume H s =
     (case doc_consume H s of
        (doc, s1) \<Rightarrow>
          (case consume_match PATTERN_ENUM_OPEN s1 of
             Inl e \<Rightarrow> Some (Inl e)
           | Inr (m_ident, s2) \<Rightarrow>
               (let s3 = consume_empty_lines s2
                in (case read_until_closing_bracket s3 of
                      Inl e \<Rightarrow> Some (Inl e)
                    | Inr (body, s4) \<Rightarrow>
                        (let s5 = consume_empty_lines s4
                         in (case consume_variants H body [] of
                               None \<Rightarrow> None
                             | Some (Inl e) \<Rightarrow> Some (Inl e)
                             | Some (Inr vs) \<Rightarrow>
                                 Some (Inr (\<lparr>documentation = doc, e_ident = m_ident, variants = vs\<rparr>, s5))))))))"

subsection \<open>Emission\<close>

text \<open>
  \<^verbatim>\<open>Variant.to_rust\<close>.
\<close>

definition Variant_to_rust :: "helpers \<Rightarrow> variant \<Rightarrow> string" where
  "Variant_to_rust H self =
     (let ident = snake_to_camel_case H (v_ident self)
      in join_nonempty_lines
           [rust_documentation H (documentation self), ident @ '' = '' @ v_value self @ '',''])"

text \<open>
  \<^verbatim>\<open>JsEnum.to_rust\<close>. The two bodies are built first; the macro name is computed when
  the last line is formatted, and its exception is the only one that can occur.
\<close>

definition JsEnum_to_rust :: "helpers \<Rightarrow> js_enum \<Rightarrow> error + string" where
  "JsEnum_to_rust H self =
     (let enum_body = str_join [newline] (map (Variant_to_rust H) (variants self));
          macro_body = ''pub enum '' @ e_ident self @ '' {'' @ [newline] @ add_indent H enum_body @ [newline] @ ''}''
      in (case JsEnum_macro self of
            Inl e \<Rightarrow> Inl e
          | Inr m \<Rightarrow> Inr (m @ '' {'' @ [newline] @ add_indent H macro_body @ [newline] @ ''}'')))"

subsection \<open>Invocations on a stored object\<close>

text \<open>
  A \<^verbatim>\<open>JsEnum\<close> is a mutable object: a method could assign to a field of
  \<^verbatim>\<open>self\<close>, and a second invocation would then see another object. To speak of
  repeated invocations the object is put in a store, a method takes the address of
  \<^verbatim>\<open>self\<close> and the store, and returns its result with the store it leaves. The
  imported helpers stay functions, as the spec has them ("stateless, pure
  transformations").
\<close>

type_synonym addr = nat

type_synonym heap = "addr \<Rightarrow> js_enum"

text \<open>
  The generator \<^verbatim>\<open>it = (variant.get_value_type() for variant in self.variants)\<close> is
  the one object with a state of its own in this module: an iterator over the list, here
  the list and the position reached. \<^verbatim>\<open>next(it)\<close> classifies the variant at the
  position and moves on; \<open>None\<close> is \<^verbatim>\<open>StopIteration\<close>.
\<close>

definition gen_next :: "variant list \<Rightarrow> nat \<Rightarrow> (error + py_type) option \<times> nat" where
  "gen_next vs pos =
     (if pos < length vs then (Some (Variant_get_value_type (vs ! pos)), Suc pos)
      else (None, pos))"

text \<open>
  \<^verbatim>\<open>all(ty == first_ty for ty in it)\<close>, drawing from the generator at its position.
\<close>

function all_same_from :: "py_type \<Rightarrow> variant list \<Rightarrow> nat \<Rightarrow> (error + bool) \<times> nat" where
  "all_same_from first_ty vs pos =
     (if pos < length vs then
        (case Variant_get_value_type (vs ! pos) of
           Inl e \<Rightarrow> (Inl e, Suc pos)
         | Inr ty \<Rightarrow>
             if ty = first_ty then all_same_from first_ty vs (Suc pos) else (Inr False, Suc pos))
      else (Inr True, pos))"
  by pat_completeness auto
termination
  by (relation "measure (\<lambda>(first_ty, vs, pos). length vs - pos)") auto

declare all_same_from.simps [simp del]

text \<open>
  \<^verbatim>\<open>JsEnum.get_value_type\<close> on the object at \<open>self\<close>: the generator is created
  by the call, at position 0, and dropped when the call returns; the store is read and
  not written.
\<close>

definition JsEnum_get_value_type_at :: "addr \<Rightarrow> heap \<Rightarrow> (error + py_type) \<times> heap" where
  "JsEnum_get_value_type_at self h =
     (let vs = variants (h self)
      in (case gen_next vs 0 of
            (None, it) \<Rightarrow> (Inl (ValueError_empty_enum (h self)), h)
          | (Some (Inl e), it) \<Rightarrow> (Inl e, h)
          | (Some (Inr first_ty), it) \<Rightarrow>
              (case all_same_from first_ty vs it of
                 (Inl e, it') \<Rightarrow> (Inl e, h)
               | (Inr same, it') \<Rightarrow>
                   if \<not> same then (Inl (TypeError_conflicting (h self)), h)
                   else (Inr first_ty, h))))"

text \<open>
  \<^verbatim>\<open>JsEnum.macro\<close> and \<^verbatim>\<open>JsEnum.to_rust\<close> on the object at \<open>self\<close>, the
  store passed through the calls they make.
\<close>

definition JsEnum_macro_at :: "addr \<Rightarrow> heap \<Rightarrow> (error + string) \<times> heap" where
  "JsEnum_macro_at self h =
     (case JsEnum_get_value_type_at self h of
        (Inl e, h') \<Rightarrow> (Inl e, h')
      | (Inr ty, h') \<Rightarrow>
          (case TYPE2MACRO ty of None \<Rightarrow> (Inl (KeyError ty), h') | Some m \<Rightarrow> (Inr m, h')))"

definition JsEnum_to_rust_at :: "helpers \<Rightarrow> addr \<Rightarrow> heap \<Rightarrow> (error + string) \<times> heap" where
  "JsEnum_to_rust_at H self h =
     (let enum_body = str_join [newline] (map (Variant_to_rust H) (variants (h self)));
          macro_body = ''pub enum '' @ e_ident (h self) @ '' {'' @ [newline] @ add_indent H enum_body @ [newline] @ ''}''
      in (case JsEnum_macro_at self h of
            (Inl e, h') \<Rightarrow> (Inl e, h')
          | (Inr m, h') \<Rightarrow> (Inr (m @ '' {'' @ [newline] @ add_indent H macro_body @ [newline] @ ''}''), h')))"

text \<open>
  \<open>n\<close> invocations of a method one after the other, each on the store the one
  before it left: the results in order, and the last store.
\<close>

primrec call_n :: "nat \<Rightarrow> (heap \<Rightarrow> 'r \<times> heap) \<Rightarrow> heap \<Rightarrow> 'r list \<times> heap" where
  "call_n 0 f h = ([], h)"
| "call_n (Suc n) f h =
     (case f h of (r, h') \<Rightarrow> (case call_n n f h' of (rs, h'') \<Rightarrow> (r # rs, h'')))"

subsection \<open>Order of appearance\<close>

text \<open>
  \<open>appear_in_order H body vs\<close>: the text \<open>body\<close> is a sequence of non-empty
  segments, one per variant of \<open>vs\<close> and in the same order, and
  \<^verbatim>\<open>Variant.consume\<close> reads each variant from the front of the text that starts
  with its segment and leaves the text after it.
\<close>

inductive appear_in_order :: "helpers \<Rightarrow> string \<Rightarrow> variant list \<Rightarrow> bool" where
  appear_nil: "appear_in_order H [] []"
| appear_cons: "seg \<noteq> [] \<Longrightarrow> Variant_consume H (seg @ rest) = Inr (v, rest) \<Longrightarrow>
     appear_in_order H rest vs \<Longrightarrow> appear_in_order H (seg @ rest) (v # vs)"

text \<open>
  The first line of a text, without its newline.
\<close>

definition first_line :: "string \<Rightarrow> string" where
  "first_line s = takeWhile (\<lambda>c. c \<noteq> newline) s"

subsection \<open>A sample of the imported helpers\<close>

text \<open>
  Modelled from the spec: one possible set of the four helpers that are parameters above
  (\<^verbatim>\<open>snake_to_camel_case\<close>, \<^verbatim>\<open>add_indent\<close>, \<^verbatim>\<open>rust_documentation\<close>,
  \<^verbatim>\<open>Documented.consume\<close>), all missing from the sources. It turns
  \<^verbatim>\<open>max_value\<close> into \<^verbatim>\<open>MaxValue\<close>, indents by four spaces, writes a
  documentation line after \<^verbatim>\<open>///\<close>, and reads the leading lines that start with
  \<^verbatim>\<open>///\<close>. It serves to run the functions on concrete inputs; no theorem about
  all helpers depends on it.
\<close>

definition to_upper :: "char \<Rightarrow> char" where
  "to_upper c =
     (case map_of (zip ''abcdefghijklmnopqrstuvwxyz'' ''ABCDEFGHIJKLMNOPQRSTUVWXYZ'') c of
        None \<Rightarrow> c
      | Some u \<Rightarrow> u)"

fun camel_from :: "bool \<Rightarrow> string \<Rightarrow> string" where
  "camel_from up [] = []"
| "camel_from up (c # cs) =
     (if c = CHR ''_'' then camel_from True cs
      else (if up then to_upper c else c) # camel_from False cs)"

definition sample_add_indent :: "string \<Rightarrow> string" where
  "sample_add_indent s =
     ''    '' @ concat (map (\<lambda>c. if c = newline then newline # ''    '' else [c]) s)"

definition sample_rust_documentation :: "documentation \<Rightarrow> string" where
  "sample_rust_documentation d =
     (case d of None \<Rightarrow> [] | Some ls \<Rightarrow> str_join [newline] (map (\<lambda>l. ''///'' @ l) ls))"

function sample_doc_lines :: "string \<Rightarrow> string list \<times> string" where
  "sample_doc_lines s =
     (if take 3 (dropWhile is_space s) = ''///'' \<and> newline \<in> set (dropWhile is_space s) then
        (case sample_doc_lines (drop 1 (dropWhile (\<lambda>c. c \<noteq> newline) (dropWhile is_space s))) of
           (ls, r) \<Rightarrow> (takeWhile (\<lambda>c. c \<noteq> newline) (drop 3 (dropWhile is_space s)) # ls, r))
      else ([], s))"
  by pat_completeness auto
termination
proof (relation "measure length")
  show "wf (measure length)" by simp
next
  fix s :: string
  assume "take 3 (dropWhile is_space s) = ''///'' \<and> newline \<in> set (dropWhile is_space s)"
  then have nl: "newline \<in> set (dropWhile is_space s)" by simp
  then have "dropWhile (\<lambda>c. c \<noteq> newline) (dropWhile is_space s) \<noteq> []"
    by (auto simp: dropWhile_eq_Nil_conv)
  then have "length (drop 1 (dropWhile (\<lambda>c. c \<noteq> newline) (dropWhile is_space s)))
      < length (dropWhile (\<lambda>c. c \<noteq> newline) (dropWhile is_space s))"
    by (cases "dropWhile (\<lambda>c. c \<noteq> newline) (dropWhile is_space s)") simp_all
  also have "\<dots> \<le> length (dropWhile is_space s)"
    by (rule length_dropWhile_le)
  also have "\<dots> \<le> length s"
    by (rule length_dropWhile_le)
  finally show "(drop 1 (dropWhile (\<lambda>c. c \<noteq> newline) (dropWhile is_space s)), s) \<in> measure length"
    by simp
qed

declare sample_doc_lines.simps [simp del]

definition sample_doc_consume :: "string \<Rightarrow> documentation \<times> string" where
  "sample_doc_consume s =
     (case sample_doc_lines s of
        ([], r) \<Rightarrow> (None, s)
      | (l # ls, r) \<Rightarrow> (Some (l # ls), r))"

definition sample_helpers :: helpers where
  "sample_helpers =
     \<lparr>snake_to_camel_case = camel_from True,
      add_indent = sample_add_indent,
      rust_documentation = sample_rust_documentation,
      doc_consume = sample_doc_consume\<rparr>"

subsection \<open>Sample inputs\<close>

definition red_variant :: variant where
  "red_variant = \<lparr>documentation = None, v_ident = ''Red'', v_value = dquote # ''red'' @ [dquote]\<rparr>"

definition blue_variant :: variant where
  "blue_variant = \<lparr>documentation = None, v_ident = ''Blue'', v_value = dquote # ''blue'' @ [dquote]\<rparr>"

definition low_variant :: variant where
  "low_variant = \<lparr>documentation = None, v_ident = ''Low'', v_value = ''0''\<rparr>"

definition high_variant :: variant where
  "high_variant = \<lparr>documentation = None, v_ident = ''High'', v_value = ''1''\<rparr>"

definition half_variant :: variant where
  "half_variant = \<lparr>documentation = None, v_ident = ''Half'', v_value = [CHR 0xBD]\<rparr>"

definition expr_variant :: variant where
  "expr_variant = \<lparr>documentation = None, v_ident = ''Sum'', v_value = ''1 + 2''\<rparr>"

definition unterminated_variant :: variant where
  "unterminated_variant = \<lparr>documentation = None, v_ident = ''Open'', v_value = dquote # ''abc 12''\<rparr>"

definition max_value_variant :: variant where
  "max_value_variant = \<lparr>documentation = Some ['' The largest.''], v_ident = ''max_value'', v_value = ''12''\<rparr>"

definition mixed_enum :: js_enum where
  "mixed_enum =
     \<lparr>documentation = None, e_ident = ''Mixed'',
      variants = [low_variant, high_variant, red_variant, expr_variant]\<rparr>"

definition color_enum :: js_enum where
  "color_enum = \<lparr>documentation = None, e_ident = ''Color'', variants = [red_variant, blue_variant]\<rparr>"

definition level_enum :: js_enum where
  "level_enum = \<lparr>documentation = None, e_ident = ''Level'', variants = [low_variant, high_variant]\<rparr>"

definition documented_color_enum :: js_enum where
  "documented_color_enum =
     \<lparr>documentation = Some [''The colours.'', ''Two of them.''], e_ident = ''Color'',
      variants = [red_variant, blue_variant]\<rparr>"

definition empty_enum :: js_enum where
  "empty_enum = \<lparr>documentation = None, e_ident = ''Nothing'', variants = []\<rparr>"

definition color_text :: string where
  "color_text =
     ''export enum Color {'' @ [newline] @
     ''  Red = '' @ [dquote] @ ''red'' @ [dquote] @ '','' @ [newline] @
     ''  Blue = '' @ [dquote] @ ''blue'' @ [dquote] @ '','' @ [newline] @
     ''}'' @ [newline]"

definition color_body :: string where
  "color_body =
     ''  Red = '' @ [dquote] @ ''red'' @ [dquote] @ '','' @ [newline] @
     ''  Blue = '' @ [dquote] @ ''blue'' @ [dquote] @ '','' @ [newline]"

definition color_rust :: string where
  "color_rust =
     ''str_enum! {'' @ [newline] @
     ''    pub enum Color {'' @ [newline] @
     ''        Red = '' @ [dquote] @ ''red'' @ [dquote] @ '','' @ [newline] @
     ''        Blue = '' @ [dquote] @ ''blue'' @ [dquote] @ '','' @ [newline] @
     ''    }'' @ [newline] @
     ''}''"

definition level_rust :: string where
  "level_rust =
     ''int_enum! {'' @ [newline] @
     ''    pub enum Level {'' @ [newline] @
     ''        Low = 0,'' @ [newline] @
     ''        High = 1,'' @ [newline] @
     ''    }'' @ [newline] @
     ''}''"

definition sample_heap :: heap where
  "sample_heap = (\<lambda>a. if a = 0 then color_enum else level_enum)"

definition max_value_text :: string where
  "max_value_text =
     ''  /// The largest.'' @ [newline] @
     ''  max_value = 12,'' @ [newline] @ [newline] @
     ''  min_value = 0,'' @ [newline]"

definition no_comma_line :: string where
  "no_comma_line = ''  Red = 1'' @ [newline]"

definition no_comma_text :: string where
  "no_comma_text = ''  Red = 1'' @ [newline] @ ''  Blue = 2,'' @ [newline]"

definition no_export_text :: string where
  "no_export_text = ''enum Color {'' @ [newline] @ ''  Red = 1,'' @ [newline] @ ''}'' @ [newline]"

definition no_comma_enum_text :: string where
  "no_comma_enum_text = ''export enum Color {'' @ [newline] @ ''  Red = 1'' @ [newline] @ ''}'' @ [newline]"

definition blue_line :: string where
  "blue_line = ''  Blue = '' @ [dquote] @ ''blue'' @ [dquote] @ '','' @ [newline]"

definition min_value_line :: string where
  "min_value_line = ''  min_value = 0,'' @ [newline]"

definition max_value_rest :: string where
  "max_value_rest = ''  max_value = 12,'' @ [newline] @ [newline] @ min_value_line"

section \<open>Properties\<close>

subsection \<open>Classification\<close>

lemma is_numeric_not_dquote: "is_numeric_char c \<Longrightarrow> c \<noteq> dquote"
  by (auto simp: is_numeric_char_def dquote_def)

lemma isnumeric_not_startswith_dquote: "isnumeric s \<Longrightarrow> \<not> startswith_dquote s"
  by (cases s) (auto simp: isnumeric_def startswith_dquote_def dest: is_numeric_not_dquote)

lemma is_digit_is_numeric_char: "is_digit c \<Longrightarrow> is_numeric_char c"
  by (simp add: is_digit_def is_numeric_char_def Let_def)

lemma all_digits_isnumeric: "s \<noteq> [] \<Longrightarrow> list_all is_digit s \<Longrightarrow> isnumeric s"
  by (auto simp: isnumeric_def list_all_iff is_digit_is_numeric_char)

text \<open>
  Claim C2 as stated fails: the value of \<open>half_variant\<close> is the single character
  U+00BD (vulgar fraction one half), which \<^verbatim>\<open>str.isnumeric\<close> accepts, so the
  classifier returns the integer type although the value does not consist of digit
  characters.
\<close>

theorem Variant_get_value_type_numeric_not_digit:
  "Variant_get_value_type half_variant = Inr PyInt \<and> \<not> list_all is_digit (v_value half_variant)"
  by (simp add: Variant_get_value_type_def half_variant_def startswith_dquote_def dquote_def
      isnumeric_def is_numeric_char_def is_digit_def)

text \<open>
  Claim C2, amended. For every variant, \<^verbatim>\<open>Variant.get_value_type\<close> returns the
  string type exactly when the raw value starts with a double-quote; it returns the
  integer type exactly when the raw value is accepted by \<^verbatim>\<open>str.isnumeric\<close>
  (non-empty, every character numeric: the decimal digits and the other numeric
  characters); and it raises the \<^verbatim>\<open>TypeError\<close> exactly in the remaining case.
  In particular every non-empty value made of the decimal digits only is classified as
  integer.
\<close>

theorem Variant_get_value_type_classification:
  "(Variant_get_value_type v = Inr PyStr \<longleftrightarrow> startswith_dquote (v_value v)) \<and>
   (Variant_get_value_type v = Inr PyInt \<longleftrightarrow> isnumeric (v_value v)) \<and>
   (Variant_get_value_type v = Inl (TypeError_cant_infer v) \<longleftrightarrow>
      \<not> startswith_dquote (v_value v) \<and> \<not> isnumeric (v_value v)) \<and>
   (v_value v \<noteq> [] \<and> list_all is_digit (v_value v) \<longrightarrow> Variant_get_value_type v = Inr PyInt)"
  using isnumeric_not_startswith_dquote [of "v_value v"] all_digits_isnumeric [of "v_value v"]
  by (auto simp: Variant_get_value_type_def)

text \<open>
  Witness for C2: the variant \<^verbatim>\<open>Low = 0\<close> has a non-empty all-digit value and is
  classified as integer.
\<close>

theorem Variant_get_value_type_classification_witness:
  "v_value low_variant \<noteq> [] \<and> list_all is_digit (v_value low_variant) \<and>
   Variant_get_value_type low_variant = Inr PyInt \<and> isnumeric (v_value low_variant)"
  using Variant_get_value_type_classification [of low_variant]
  by (simp add: low_variant_def is_digit_def isnumeric_def is_numeric_char_def)

text \<open>
  Claim C10. The double-quote test comes first: for every variant whose raw value starts
  with a double-quote, \<^verbatim>\<open>Variant.get_value_type\<close> returns the string type, whatever
  follows the quote, and does not raise.
\<close>

theorem Variant_get_value_type_dquote_first: "startswith_dquote (v_value v) \<Longrightarrow> Variant_get_value_type v = Inr PyStr"
  by (simp add: Variant_get_value_type_def)

text \<open>
  Witness for C10: an unterminated literal, a double-quote followed by \<^verbatim>\<open>abc 12\<close>.
\<close>

theorem Variant_get_value_type_dquote_first_witness: "startswith_dquote (v_value unterminated_variant) \<and> Variant_get_value_type unterminated_variant = Inr PyStr"
  using Variant_get_value_type_dquote_first [of unterminated_variant]
  by (simp add: unterminated_variant_def startswith_dquote_def)

subsection \<open>Type inference\<close>

text \<open>
  Claim C4. For every enum with zero variants, \<^verbatim>\<open>JsEnum.get_value_type\<close> raises the
  \<^verbatim>\<open>ValueError\<close> and returns no default type; \<^verbatim>\<open>JsEnum.macro\<close> and
  \<^verbatim>\<open>JsEnum.to_rust\<close> fail with the same exception, for all helpers.
\<close>

theorem JsEnum_empty_enum_ValueError: "variants e = [] \<Longrightarrow>
   JsEnum_get_value_type e = Inl (ValueError_empty_enum e) \<and>
   is_ValueError (ValueError_empty_enum e) \<and>
   JsEnum_macro e = Inl (ValueError_empty_enum e) \<and>
   JsEnum_to_rust H e = Inl (ValueError_empty_enum e)"
  by (simp add: JsEnum_get_value_type_def JsEnum_macro_def JsEnum_to_rust_def)

text \<open>
  Witness for C4: the enum \<open>empty_enum\<close>.
\<close>

theorem JsEnum_empty_enum_ValueError_witness: "variants empty_enum = [] \<and> JsEnum_to_rust sample_helpers empty_enum = Inl (ValueError_empty_enum empty_enum)
  \<and> JsEnum_get_value_type empty_enum = Inl (ValueError_empty_enum empty_enum)"
  using JsEnum_empty_enum_ValueError [of empty_enum sample_helpers]
  by (simp add: empty_enum_def)

lemma all_same_type_all: "\<forall>u\<in>set vs. Variant_get_value_type u = Inr t \<Longrightarrow> all_same_type t vs = Inr True"
  by (induction vs) simp_all

lemma all_same_type_mismatch:
  "\<forall>u\<in>set mid. Variant_get_value_type u = Inr t \<Longrightarrow> Variant_get_value_type w = Inr t' \<Longrightarrow> t' \<noteq> t \<Longrightarrow>
   all_same_type t (mid @ w # rest) = Inr False"
  by (induction mid) simp_all

text \<open>
  Claim C5. Take a non-empty enum. If the first variant classifies as \<open>t\<close>, the
  variants \<open>mid\<close> after it classify as \<open>t\<close> too and the next variant \<open>w\<close>
  classifies as a different type, then \<^verbatim>\<open>JsEnum.get_value_type\<close> raises the
  \<^verbatim>\<open>TypeError\<close> about conflicting value types, whatever the variants \<open>rest\<close>
  after \<open>w\<close> are: they are not classified, since one of them that cannot be
  classified would raise the other \<^verbatim>\<open>TypeError\<close> instead. If all variants
  classify as \<open>t\<close>, the result is \<open>t\<close>.
\<close>

theorem JsEnum_get_value_type_first_mismatch:
  "(variants e = v # mid @ w # rest \<and> Variant_get_value_type v = Inr t \<and>
      (\<forall>u\<in>set mid. Variant_get_value_type u = Inr t) \<and>
      Variant_get_value_type w = Inr t' \<and> t' \<noteq> t
    \<longrightarrow> JsEnum_get_value_type e = Inl (TypeError_conflicting e) \<and> is_TypeError (TypeError_conflicting e)) \<and>
   (variants e = v # vs \<and> (\<forall>u\<in>set (v # vs). Variant_get_value_type u = Inr t)
    \<longrightarrow> JsEnum_get_value_type e = Inr t)"
proof (intro conjI impI)
  assume a: "variants e = v # mid @ w # rest \<and> Variant_get_value_type v = Inr t \<and>
      (\<forall>u\<in>set mid. Variant_get_value_type u = Inr t) \<and>
      Variant_get_value_type w = Inr t' \<and> t' \<noteq> t"
  then have "all_same_type t (mid @ w # rest) = Inr False"
    using all_same_type_mismatch by blast
  with a show "JsEnum_get_value_type e = Inl (TypeError_conflicting e)"
    by (simp add: JsEnum_get_value_type_def)
  show "is_TypeError (TypeError_conflicting e)" by simp
next
  assume a: "variants e = v # vs \<and> (\<forall>u\<in>set (v # vs). Variant_get_value_type u = Inr t)"
  then have "all_same_type t vs = Inr True"
    using all_same_type_all by simp
  with a show "JsEnum_get_value_type e = Inr t"
    by (simp add: JsEnum_get_value_type_def)
qed

lemma gvt_samples:
  "Variant_get_value_type low_variant = Inr PyInt"
  "Variant_get_value_type high_variant = Inr PyInt"
  "Variant_get_value_type red_variant = Inr PyStr"
  "Variant_get_value_type blue_variant = Inr PyStr"
  "Variant_get_value_type expr_variant = Inl (TypeError_cant_infer expr_variant)"
  by (simp_all add: Variant_get_value_type_def low_variant_def high_variant_def red_variant_def
      blue_variant_def expr_variant_def startswith_dquote_def dquote_def isnumeric_def is_numeric_char_def)

text \<open>
  Witness for C5: in \<open>mixed_enum\<close> the third variant is a string after two integers,
  and the fourth, \<^verbatim>\<open>1 + 2\<close>, cannot be classified at all; the result is still the
  error about conflicting types. In \<open>level_enum\<close> both variants are integers.
\<close>

theorem JsEnum_get_value_type_first_mismatch_witness:
  "JsEnum_get_value_type mixed_enum = Inl (TypeError_conflicting mixed_enum) \<and>
   Variant_get_value_type expr_variant = Inl (TypeError_cant_infer expr_variant) \<and>
   JsEnum_get_value_type level_enum = Inr PyInt"
  using JsEnum_get_value_type_first_mismatch [of mixed_enum low_variant "[high_variant]" red_variant "[expr_variant]" PyInt PyStr]
    JsEnum_get_value_type_first_mismatch [of level_enum low_variant _ _ _ PyInt _ "[high_variant]"]
  by (simp add: gvt_samples mixed_enum_def level_enum_def)

subsection \<open>Macro selection and emission\<close>

lemma TYPE2MACRO_cases: "TYPE2MACRO PyInt = Some ''int_enum!''" "TYPE2MACRO PyStr = Some ''str_enum!''"
  by (simp_all add: TYPE2MACRO_def)

lemma JsEnum_macro_of_type:
  "JsEnum_get_value_type e = Inr t \<Longrightarrow>
   JsEnum_macro e = Inr (case t of PyInt \<Rightarrow> ''int_enum!'' | PyStr \<Rightarrow> ''str_enum!'')"
  by (cases t) (simp_all add: JsEnum_macro_def TYPE2MACRO_cases)

lemma JsEnum_macro_Inr:
  "JsEnum_macro e = Inr m \<Longrightarrow> \<exists>t. JsEnum_get_value_type e = Inr t \<and> TYPE2MACRO t = Some m"
  by (auto simp: JsEnum_macro_def split: sum.splits option.splits)

lemma JsEnum_to_rust_of_macro:
  "JsEnum_macro e = Inr m \<Longrightarrow>
   JsEnum_to_rust H e =
     Inr (m @ '' {'' @ [newline] @
          add_indent H (''pub enum '' @ e_ident e @ '' {'' @ [newline] @
            add_indent H (str_join [newline] (map (Variant_to_rust H) (variants e))) @
            [newline] @ ''}'') @
          [newline] @ ''}'')"
  by (simp add: JsEnum_to_rust_def Let_def)

text \<open>
  Claim C3. When type inference succeeds, \<^verbatim>\<open>JsEnum.macro\<close> is
  \<^verbatim>\<open>int_enum!\<close> for the integer type and \<^verbatim>\<open>str_enum!\<close> for the string type,
  and it never returns any other name. The text \<^verbatim>\<open>JsEnum.to_rust\<close> returns is
  that macro name, \<^verbatim>\<open> {\<close> and a newline, the indented declaration
  \<^verbatim>\<open>pub enum <ident> {\<close> ... \<^verbatim>\<open>}\<close> around the indented variant lines, a
  newline and the closing \<^verbatim>\<open>}\<close>: the whole declaration is wrapped in the
  invocation of the selected macro. When type inference fails, so does the emitter, with
  the same exception, and no macro name is produced.
\<close>

theorem JsEnum_macro_selection:
  "(JsEnum_get_value_type e = Inr PyInt \<longrightarrow> JsEnum_macro e = Inr ''int_enum!'') \<and>
   (JsEnum_get_value_type e = Inr PyStr \<longrightarrow> JsEnum_macro e = Inr ''str_enum!'') \<and>
   (JsEnum_macro e = Inr m \<longrightarrow> m = ''int_enum!'' \<or> m = ''str_enum!'') \<and>
   (JsEnum_get_value_type e = Inr t \<longrightarrow>
      JsEnum_to_rust H e =
        Inr ((case t of PyInt \<Rightarrow> ''int_enum!'' | PyStr \<Rightarrow> ''str_enum!'') @ '' {'' @ [newline] @
             add_indent H (''pub enum '' @ e_ident e @ '' {'' @ [newline] @
               add_indent H (str_join [newline] (map (Variant_to_rust H) (variants e))) @
               [newline] @ ''}'') @
             [newline] @ ''}'')) \<and>
   (JsEnum_get_value_type e = Inl err \<longrightarrow> JsEnum_to_rust H e = Inl err)"
proof (intro conjI impI)
  assume "JsEnum_get_value_type e = Inr PyInt"
  then show "JsEnum_macro e = Inr ''int_enum!''"
    using JsEnum_macro_of_type [of e PyInt] by simp
next
  assume "JsEnum_get_value_type e = Inr PyStr"
  then show "JsEnum_macro e = Inr ''str_enum!''"
    using JsEnum_macro_of_type [of e PyStr] by simp
next
  assume "JsEnum_macro e = Inr m"
  then obtain t where "TYPE2MACRO t = Some m"
    using JsEnum_macro_Inr by blast
  then show "m = ''int_enum!'' \<or> m = ''str_enum!''"
    by (cases t) (simp_all add: TYPE2MACRO_cases)
next
  assume "JsEnum_get_value_type e = Inr t"
  then have "JsEnum_macro e = Inr (case t of PyInt \<Rightarrow> ''int_enum!'' | PyStr \<Rightarrow> ''str_enum!'')"
    by (rule JsEnum_macro_of_type)
  then show "JsEnum_to_rust H e =
        Inr ((case t of PyInt \<Rightarrow> ''int_enum!'' | PyStr \<Rightarrow> ''str_enum!'') @ '' {'' @ [newline] @
             add_indent H (''pub enum '' @ e_ident e @ '' {'' @ [newline] @
               add_indent H (str_join [newline] (map (Variant_to_rust H) (variants e))) @
               [newline] @ ''}'') @
             [newline] @ ''}'')"
    by (rule JsEnum_to_rust_of_macro)
next
  assume "JsEnum_get_value_type e = Inl err"
  then show "JsEnum_to_rust H e = Inl err"
    by (simp add: JsEnum_to_rust_def JsEnum_macro_def Let_def)
qed

lemma JsEnum_gvt_samples:
  "JsEnum_get_value_type level_enum = Inr PyInt"
  "JsEnum_get_value_type color_enum = Inr PyStr"
  "JsEnum_get_value_type documented_color_enum = Inr PyStr"
  by (simp_all add: JsEnum_get_value_type_def level_enum_def color_enum_def documented_color_enum_def gvt_samples)

text \<open>
  Claim C1 does not hold for the code. \<^verbatim>\<open>JsEnum.to_rust\<close> never calls
  \<^verbatim>\<open>rust_documentation\<close> on the enum: for the enum \<open>documented_color_enum\<close>,
  whose documentation has two lines, the text starts with the macro name, contains the
  documentation of the enum nowhere, and is the text of the same enum without
  documentation. This holds for all helpers. \<^verbatim>\<open>Variant.to_rust\<close> does emit the
  documentation of a variant.
\<close>

theorem JsEnum_to_rust_drops_enum_documentation:
  "JsEnum_to_rust H documented_color_enum =
     Inr (''str_enum! {'' @ [newline] @
          add_indent H (''pub enum Color {'' @ [newline] @
            add_indent H (Variant_to_rust H red_variant @ [newline] @ Variant_to_rust H blue_variant) @
            [newline] @ ''}'') @
          [newline] @ ''}'') \<and>
   JsEnum_to_rust H documented_color_enum = JsEnum_to_rust H color_enum"
proof -
  have "JsEnum_macro documented_color_enum = Inr ''str_enum!''"
    using JsEnum_macro_of_type [OF JsEnum_gvt_samples(3)] by simp
  moreover have "JsEnum_macro color_enum = Inr ''str_enum!''"
    using JsEnum_macro_of_type [OF JsEnum_gvt_samples(2)] by simp
  ultimately show ?thesis
    by (simp add: JsEnum_to_rust_def documented_color_enum_def color_enum_def)
qed

lemma JsEnum_get_value_type_ignores_documentation:
  "JsEnum_get_value_type e = Inr t \<Longrightarrow> JsEnum_get_value_type (e\<lparr>documentation := d\<rparr>) = Inr t"
  by (auto simp: JsEnum_get_value_type_def split: list.splits sum.splits if_splits)

lemma JsEnum_to_rust_ignores_documentation:
  "JsEnum_to_rust H e = Inr out \<Longrightarrow> JsEnum_to_rust H (e\<lparr>documentation := d\<rparr>) = Inr out"
proof -
  assume a: "JsEnum_to_rust H e = Inr out"
  then obtain m where m: "JsEnum_macro e = Inr m"
    by (auto simp: JsEnum_to_rust_def Let_def split: sum.splits)
  then obtain t where t: "JsEnum_get_value_type e = Inr t" "TYPE2MACRO t = Some m"
    using JsEnum_macro_Inr by blast
  have "JsEnum_get_value_type (e\<lparr>documentation := d\<rparr>) = Inr t"
    using t(1) by (rule JsEnum_get_value_type_ignores_documentation)
  with t(2) have "JsEnum_macro (e\<lparr>documentation := d\<rparr>) = Inr m"
    by (simp add: JsEnum_macro_def)
  with a m show ?thesis
    by (simp add: JsEnum_to_rust_def Let_def)
qed

subsection \<open>What the patterns match\<close>

lemma lazy_until_comma_newline_sound:
  "lazy_until_comma_newline s = Some v \<Longrightarrow>
   v \<noteq> [] \<and> newline \<notin> set v \<and> s = v @ [CHR '','', newline] @ drop (length v + 2) s"
proof (induction s arbitrary: v)
  case Nil
  then show ?case by simp
next
  case (Cons c cs)
  show ?case
  proof (cases "take 2 cs = [CHR '','', newline]")
    case True
    with Cons.prems have v: "v = [c]" and c: "c \<noteq> newline"
      by (auto split: if_splits)
    from True obtain rest where "cs = CHR '','' # newline # rest"
      by (metis append_take_drop_id append_Cons append_Nil)
    with v c show ?thesis by simp
  next
    case False
    with Cons.prems obtain v' where c: "c \<noteq> newline" and v': "lazy_until_comma_newline cs = Some v'"
      and v: "v = c # v'"
      by (auto split: if_splits)
    from Cons.IH [OF v'] v c show ?thesis by simp
  qed
qed

lemma is_word_not_newline: "\<not> is_word newline"
  by (simp add: is_word_def is_alpha_char_def is_numeric_char_def newline_def)

lemma is_space_not_newline: "\<not> is_space newline"
  by (simp add: is_space_def newline_def)

lemma PATTERN_VARIANT_sound:
  assumes "PATTERN_VARIANT s = Some ((i, v), n)"
  shows "i \<noteq> [] \<and> v \<noteq> [] \<and> newline \<notin> set v \<and> list_all is_word i \<and>
         s = takeWhile is_space s @ i @ '' = '' @ v @ [CHR '','', newline] @ drop n s \<and>
         n = length (takeWhile is_space s) + length i + 3 + length v + 2"
proof -
  define s1 where "s1 = dropWhile is_space s"
  define s2 where "s2 = dropWhile is_word s1"
  from assms have i: "i = takeWhile is_word s1" and ine: "i \<noteq> []"
    and t3: "take 3 s2 = '' = ''"
    and lz: "lazy_until_comma_newline (drop 3 s2) = Some v"
    and n: "n = length (takeWhile is_space s) + length i + 3 + length v + 2"
    by (auto simp: PATTERN_VARIANT_def Let_def s1_def s2_def split: if_splits option.splits)
  from lazy_until_comma_newline_sound [OF lz]
  have v: "v \<noteq> []" "newline \<notin> set v"
    and d: "drop 3 s2 = v @ [CHR '','', newline] @ drop (length v + 2) (drop 3 s2)"
    by simp_all
  have s: "s = takeWhile is_space s @ s1" by (simp add: s1_def)
  have s1: "s1 = i @ s2" by (simp add: i s2_def)
  have s2: "s2 = '' = '' @ drop 3 s2" using t3 append_take_drop_id [of 3 s2] by simp
  have dn: "drop n s = drop (length v + 2) (drop 3 s2)"
  proof -
    have "drop n s = drop (length i + 3 + length v + 2) s1"
      by (subst s) (simp add: n)
    also have "\<dots> = drop (3 + length v + 2) s2"
      by (subst s1) simp
    also have "\<dots> = drop (length v + 2) (drop 3 s2)"
      by (simp add: add.commute)
    finally show ?thesis .
  qed
  have "s = takeWhile is_space s @ i @ '' = '' @ drop 3 s2"
    using s s1 s2 by (metis append_assoc)
  with d dn have "s = takeWhile is_space s @ i @ '' = '' @ v @ [CHR '','', newline] @ drop n s"
    by simp
  moreover have "list_all is_word i"
    by (simp add: i list_all_iff) (meson set_takeWhileD)
  ultimately show ?thesis using ine v n by blast
qed

lemma takeWhile_not_newline:
  "\<forall>c\<in>set pre. c \<noteq> newline \<Longrightarrow> takeWhile (\<lambda>c. c \<noteq> newline) (pre @ newline # rest) = pre"
  by (subst takeWhile_append2) auto

lemma first_line_of_match:
  assumes "PATTERN_VARIANT s = Some ((i, v), n)"
  shows "first_line s = takeWhile is_space s @ i @ '' = '' @ v @ '',''"
proof -
  note snd = PATTERN_VARIANT_sound [OF assms]
  from snd have v: "newline \<notin> set v" and i: "list_all is_word i"
    by blast+
  from snd have s: "s = takeWhile is_space s @ i @ '' = '' @ v @ [CHR '','', newline] @ drop n s"
    by blast
  have pre: "\<forall>c\<in>set (takeWhile is_space s @ i @ '' = '' @ v @ '',''). c \<noteq> newline"
    using v i is_word_not_newline is_space_not_newline
    by (auto simp: list_all_iff newline_def dest: set_takeWhileD)
  have "first_line s = first_line (takeWhile is_space s @ i @ '' = '' @ v @ [CHR '','', newline] @ drop n s)"
    by (rule arg_cong [OF s])
  also have "\<dots> = first_line ((takeWhile is_space s @ i @ '' = '' @ v @ '','') @ newline # drop n s)"
    by simp
  also have "\<dots> = takeWhile is_space s @ i @ '' = '' @ v @ '',''"
    unfolding first_line_def by (rule takeWhile_not_newline [OF pre])
  finally show ?thesis .
qed

lemma PATTERN_VARIANT_needs_comma:
  "first_line s = [] \<or> last (first_line s) \<noteq> CHR '','' \<Longrightarrow> PATTERN_VARIANT s = None"
proof (rule ccontr)
  assume h: "first_line s = [] \<or> last (first_line s) \<noteq> CHR '',''" and "PATTERN_VARIANT s \<noteq> None"
  then obtain i v n where "PATTERN_VARIANT s = Some ((i, v), n)" by auto
  from first_line_of_match [OF this] h show False by simp
qed

lemma PATTERN_ENUM_OPEN_needs_export:
  "\<not> prefix ''export '' (dropWhile is_space s) \<Longrightarrow> PATTERN_ENUM_OPEN s = None"
proof -
  assume h: "\<not> prefix ''export '' (dropWhile is_space s)"
  have "take 12 (dropWhile is_space s) \<noteq> ''export enum ''"
  proof
    assume "take 12 (dropWhile is_space s) = ''export enum ''"
    then have "prefix ''export enum '' (dropWhile is_space s)"
      by (metis take_is_prefix)
    moreover have "prefix ''export '' ''export enum ''" by simp
    ultimately show False using h prefix_order.trans by blast
  qed
  then show ?thesis by (simp add: PATTERN_ENUM_OPEN_def Let_def)
qed

lemma take_length_append: "n = length pre \<Longrightarrow> take n (pre @ rest) = pre"
  by simp

lemma PATTERN_VARIANT_take:
  assumes "PATTERN_VARIANT s = Some ((i, v), n)"
  shows "take n s = takeWhile is_space s @ i @ '' = '' @ v @ [CHR '','', newline]"
proof -
  note snd = PATTERN_VARIANT_sound [OF assms]
  from snd have s: "s = takeWhile is_space s @ i @ '' = '' @ v @ [CHR '','', newline] @ drop n s"
    by blast
  from snd have n: "n = length (takeWhile is_space s) + length i + 3 + length v + 2"
    by blast
  have n': "n = length (takeWhile is_space s @ i @ '' = '' @ v @ [CHR '','', newline])"
    by (simp add: n)
  have "take n s = take n (takeWhile is_space s @ i @ '' = '' @ v @ [CHR '','', newline] @ drop n s)"
    by (rule arg_cong [OF s])
  also have "\<dots> = take n ((takeWhile is_space s @ i @ '' = '' @ v @ [CHR '','', newline]) @ drop n s)"
    by (simp only: append_assoc)
  also have "\<dots> = takeWhile is_space s @ i @ '' = '' @ v @ [CHR '','', newline]"
    by (rule take_length_append [OF n'])
  finally show ?thesis .
qed

subsection \<open>Parsing\<close>

lemma consume_match_Inr:
  "consume_match p s = Inr (g, s') \<Longrightarrow> \<exists>n. p s = Some (g, n) \<and> s' = drop n s"
  by (auto simp: consume_match_def split: option.splits)

lemma Variant_consume_Inr:
  assumes "Variant_consume H s = Inr (v, rest)"
  shows "\<exists>n. PATTERN_VARIANT (snd (doc_consume H s)) = Some ((v_ident v, v_value v), n) \<and>
             documentation v = fst (doc_consume H s) \<and>
             rest = consume_empty_lines (drop n (snd (doc_consume H s)))"
proof -
  obtain doc s1 where d: "doc_consume H s = (doc, s1)"
    by (cases "doc_consume H s")
  from assms d obtain g s2 where m: "consume_match PATTERN_VARIANT s1 = Inr (g, s2)"
    by (cases "consume_match PATTERN_VARIANT s1") (auto simp: Variant_consume_def)
  obtain i val where g: "g = (i, val)"
    by (cases g)
  from assms d m g
  have v: "v = \<lparr>documentation = doc, v_ident = i, v_value = val\<rparr>"
    and r: "rest = consume_empty_lines s2"
    by (simp_all add: Variant_consume_def Let_def)
  from consume_match_Inr [OF m] g obtain n where
    "PATTERN_VARIANT s1 = Some ((i, val), n)" "s2 = drop n s1"
    by blast
  with d v r show ?thesis by simp
qed

lemma Variant_consume_shrinks:
  assumes suf: "\<forall>s. suffix (snd (doc_consume H s)) s"
    and c: "Variant_consume H body = Inr (v, body')"
  shows "\<exists>seg. seg \<noteq> [] \<and> body = seg @ body'"
proof -
  define s1 where "s1 = snd (doc_consume H body)"
  from Variant_consume_Inr [OF c] obtain n where
    p: "PATTERN_VARIANT s1 = Some ((v_ident v, v_value v), n)"
    and b: "body' = consume_empty_lines (drop n s1)"
    unfolding s1_def by blast
  from suf obtain zs where zs: "body = zs @ s1"
    unfolding s1_def suffix_def by blast
  define pre where "pre = take n s1"
  define d where "d = drop n s1"
  define tw where "tw = takeWhile (\<lambda>c. c = newline) d"
  have pre: "pre \<noteq> []"
    unfolding pre_def by (simp add: PATTERN_VARIANT_take [OF p])
  have s1: "s1 = pre @ d"
    unfolding pre_def d_def by simp
  have d: "d = tw @ body'"
    unfolding tw_def b consume_empty_lines_def d_def by simp
  have e: "body = (zs @ pre @ tw) @ body'"
    unfolding zs s1 d by simp
  have ne: "zs @ pre @ tw \<noteq> []"
    using pre by simp
  show ?thesis
    by (rule exI [of _ "zs @ pre @ tw"]) (rule conjI [OF ne e])
qed

lemma consume_variants_total_order:
  assumes suf: "\<forall>s. suffix (snd (doc_consume H s)) s"
  shows "\<exists>r. consume_variants H body acc = Some r \<and>
           (\<forall>vs. r = Inr vs \<longrightarrow> (\<exists>ws. vs = acc @ ws \<and> appear_in_order H body ws))"
proof (induction body arbitrary: acc rule: length_induct)
  case (1 body)
  show ?case
  proof (cases "body = []")
    case True
    then have "consume_variants H body acc = Some (Inr acc)"
      by (subst consume_variants.simps) simp
    with True show ?thesis
      using appear_nil by auto
  next
    case False
    show ?thesis
    proof (cases "Variant_consume H body")
      case (Inl e)
      with False have "consume_variants H body acc = Some (Inl e)"
        by (subst consume_variants.simps) simp
      then show ?thesis by simp
    next
      case (Inr p)
      obtain v body' where p: "p = (v, body')" by (cases p)
      with Inr have c: "Variant_consume H body = Inr (v, body')" by simp
      from Variant_consume_shrinks [OF suf c] obtain seg where seg: "seg \<noteq> []" "body = seg @ body'"
        by blast
      then have "length body' < length body" by simp
      with 1 obtain r where r: "consume_variants H body' (acc @ [v]) = Some r"
        and ro: "\<forall>vs. r = Inr vs \<longrightarrow> (\<exists>ws. vs = (acc @ [v]) @ ws \<and> appear_in_order H body' ws)"
        by blast
      from False c have "consume_variants H body acc = consume_variants H body' (acc @ [v])"
        by (subst consume_variants.simps) simp
      with r have eq: "consume_variants H body acc = Some r" by simp
      have "\<exists>ws. vs = acc @ ws \<and> appear_in_order H body ws" if "r = Inr vs" for vs
      proof -
        from ro that obtain ws where ws: "vs = (acc @ [v]) @ ws" "appear_in_order H body' ws"
          by blast
        from seg c have "Variant_consume H (seg @ body') = Inr (v, body')" by simp
        with seg(1) have "appear_in_order H (seg @ body') (v # ws)"
          using ws(2) by (rule appear_cons)
        with seg(2) ws(1) show ?thesis by simp
      qed
      with eq show ?thesis by blast
    qed
  qed
qed

lemma JsEnum_consume_Inr:
  assumes "JsEnum_consume H s = Some (Inr (e, rest))"
  shows "\<exists>doc s1 m s2 body s4.
           doc_consume H s = (doc, s1) \<and>
           consume_match PATTERN_ENUM_OPEN s1 = Inr (m, s2) \<and>
           read_until_closing_bracket (consume_empty_lines s2) = Inr (body, s4) \<and>
           consume_variants H body [] = Some (Inr (variants e)) \<and>
           documentation e = doc \<and> e_ident e = m \<and> rest = consume_empty_lines s4"
proof -
  obtain doc s1 where d: "doc_consume H s = (doc, s1)"
    by (cases "doc_consume H s")
  from assms d obtain m s2 where m: "consume_match PATTERN_ENUM_OPEN s1 = Inr (m, s2)"
    by (cases "consume_match PATTERN_ENUM_OPEN s1") (auto simp: JsEnum_consume_def)
  from assms d m obtain body s4 where
    r: "read_until_closing_bracket (consume_empty_lines s2) = Inr (body, s4)"
    by (cases "read_until_closing_bracket (consume_empty_lines s2)")
      (auto simp: JsEnum_consume_def Let_def)
  from assms d m r obtain x where x: "consume_variants H body [] = Some x"
    by (cases "consume_variants H body []") (auto simp: JsEnum_consume_def Let_def)
  from assms d m r x obtain vs where vs: "x = Inr vs"
    by (cases x) (auto simp: JsEnum_consume_def Let_def)
  from assms d m r x vs
  have "e = \<lparr>documentation = doc, e_ident = m, variants = vs\<rparr>" "rest = consume_empty_lines s4"
    by (simp_all add: JsEnum_consume_def Let_def)
  with d m r x vs show ?thesis by simp
qed

text \<open>
  Claim C6. Let the documentation extractor return a suffix of its input (it strips
  leading lines). For every text the enum parser accepts, the variants of the parsed enum
  appear in the bracketed body in the order of the list: the body is a sequence of
  non-empty segments, the i-th variant is what \<^verbatim>\<open>Variant.consume\<close> reads at the
  i-th segment. The text emitted for the enum renders the variants in that same order:
  the inner block is the renderings of the variants in list order, joined by newlines.
\<close>

theorem JsEnum_consume_order_preserved:
  assumes "\<forall>s. suffix (snd (doc_consume H s)) s"
    and "JsEnum_consume H s = Some (Inr (e, rest))"
  shows "(\<exists>doc s1 m s2 body s4.
           doc_consume H s = (doc, s1) \<and>
           consume_match PATTERN_ENUM_OPEN s1 = Inr (m, s2) \<and>
           read_until_closing_bracket (consume_empty_lines s2) = Inr (body, s4) \<and>
           appear_in_order H body (variants e)) \<and>
         (\<forall>m. JsEnum_macro e = Inr m \<longrightarrow>
           JsEnum_to_rust H e =
             Inr (m @ '' {'' @ [newline] @
                  add_indent H (''pub enum '' @ e_ident e @ '' {'' @ [newline] @
                    add_indent H (str_join [newline] (map (Variant_to_rust H) (variants e))) @
                    [newline] @ ''}'') @
                  [newline] @ ''}''))"
proof
  from JsEnum_consume_Inr [OF assms(2)] obtain doc s1 m s2 body s4 where
    a: "doc_consume H s = (doc, s1)" "consume_match PATTERN_ENUM_OPEN s1 = Inr (m, s2)"
      "read_until_closing_bracket (consume_empty_lines s2) = Inr (body, s4)"
    and cv: "consume_variants H body [] = Some (Inr (variants e))"
    by blast
  from consume_variants_total_order [OF assms(1), of body "[]"] cv
  have "appear_in_order H body (variants e)" by auto
  with a show "\<exists>doc s1 m s2 body s4.
           doc_consume H s = (doc, s1) \<and>
           consume_match PATTERN_ENUM_OPEN s1 = Inr (m, s2) \<and>
           read_until_closing_bracket (consume_empty_lines s2) = Inr (body, s4) \<and>
           appear_in_order H body (variants e)"
    by blast
next
  show "\<forall>m. JsEnum_macro e = Inr m \<longrightarrow>
           JsEnum_to_rust H e =
             Inr (m @ '' {'' @ [newline] @
                  add_indent H (''pub enum '' @ e_ident e @ '' {'' @ [newline] @
                    add_indent H (str_join [newline] (map (Variant_to_rust H) (variants e))) @
                    [newline] @ ''}'') @
                  [newline] @ ''}'')"
    by (simp add: JsEnum_to_rust_def Let_def)
qed

subsection \<open>The sample documentation reader returns a suffix\<close>

lemma sample_doc_lines_suffix: "suffix (snd (sample_doc_lines s)) s"
proof (induction s rule: sample_doc_lines.induct)
  case (1 s)
  show ?case
  proof (cases "take 3 (dropWhile is_space s) = ''///'' \<and> newline \<in> set (dropWhile is_space s)")
    case True
    let ?t = "drop 1 (dropWhile (\<lambda>c. c \<noteq> newline) (dropWhile is_space s))"
    from True have "snd (sample_doc_lines s) = snd (sample_doc_lines ?t)"
      by (subst sample_doc_lines.simps) (simp split: prod.splits)
    moreover have "suffix (snd (sample_doc_lines ?t)) ?t"
      using 1 True by blast
    moreover have "suffix ?t s"
      by (meson suffix_drop suffix_dropWhile suffix_order.trans)
    ultimately show ?thesis
      using suffix_order.trans by metis
  next
    case False
    then have "sample_doc_lines s = ([], s)"
      by (subst sample_doc_lines.simps) auto
    then show ?thesis by simp
  qed
qed

lemma sample_doc_consume_suffix: "suffix (snd (doc_consume sample_helpers s)) s"
proof -
  have "suffix (snd (sample_doc_consume s)) s"
    using sample_doc_lines_suffix [of s]
    by (auto simp: sample_doc_consume_def split: prod.splits list.splits)
  then show ?thesis by (simp add: sample_helpers_def)
qed

subsection \<open>Variant rendering\<close>

text \<open>
  Claim C7. For every variant, \<^verbatim>\<open>Variant.to_rust\<close> ends with the line made of the
  identifier passed through \<^verbatim>\<open>snake_to_camel_case\<close>, \<^verbatim>\<open> = \<close>, the raw value
  unchanged and a comma; the line is the whole result when there is no documentation to
  emit, and follows the documentation on a new line otherwise. The raw value of a parsed
  variant is the text found between \<^verbatim>\<open> = \<close> and the comma that ends the line, quotes
  included.
\<close>

theorem Variant_to_rust_line:
  "Variant_to_rust H v =
     (if rust_documentation H (documentation v) = []
      then snake_to_camel_case H (v_ident v) @ '' = '' @ v_value v @ '',''
      else rust_documentation H (documentation v) @ [newline] @
           snake_to_camel_case H (v_ident v) @ '' = '' @ v_value v @ '','') \<and>
   (Variant_consume H s = Inr (v, rest) \<longrightarrow>
      (\<exists>n. take n (snd (doc_consume H s)) =
            takeWhile is_space (snd (doc_consume H s)) @ v_ident v @ '' = '' @ v_value v @ '','' @ [newline]))"
proof
  show "Variant_to_rust H v =
     (if rust_documentation H (documentation v) = []
      then snake_to_camel_case H (v_ident v) @ '' = '' @ v_value v @ '',''
      else rust_documentation H (documentation v) @ [newline] @
           snake_to_camel_case H (v_ident v) @ '' = '' @ v_value v @ '','')"
    by (simp add: Variant_to_rust_def Let_def join_nonempty_lines_def)
next
  show "Variant_consume H s = Inr (v, rest) \<longrightarrow>
      (\<exists>n. take n (snd (doc_consume H s)) =
            takeWhile is_space (snd (doc_consume H s)) @ v_ident v @ '' = '' @ v_value v @ '','' @ [newline])"
  proof
    assume "Variant_consume H s = Inr (v, rest)"
    from Variant_consume_Inr [OF this] obtain n where
      "PATTERN_VARIANT (snd (doc_consume H s)) = Some ((v_ident v, v_value v), n)"
      by blast
    from PATTERN_VARIANT_take [OF this]
    show "\<exists>n. take n (snd (doc_consume H s)) =
            takeWhile is_space (snd (doc_consume H s)) @ v_ident v @ '' = '' @ v_value v @ '','' @ [newline]"
      by auto
  qed
qed

subsection \<open>Malformed input\<close>

lemma consume_variants_Inl:
  "body \<noteq> [] \<Longrightarrow> Variant_consume H body = Inl e \<Longrightarrow> consume_variants H body vs = Some (Inl e)"
  by (subst consume_variants.simps) simp

lemma Variant_consume_no_comma:
  assumes "first_line (snd (doc_consume H s)) = [] \<or> last (first_line (snd (doc_consume H s))) \<noteq> CHR '',''"
  shows "Variant_consume H s = Inl ParseError"
proof -
  obtain doc s1 where d: "doc_consume H s = (doc, s1)"
    by (cases "doc_consume H s")
  with assms have "first_line s1 = [] \<or> last (first_line s1) \<noteq> CHR '',''"
    by simp
  then have "PATTERN_VARIANT s1 = None"
    by (rule PATTERN_VARIANT_needs_comma)
  with d show ?thesis
    by (simp add: Variant_consume_def consume_match_def)
qed

lemma JsEnum_consume_no_export:
  assumes "\<not> prefix ''export '' (dropWhile is_space (snd (doc_consume H s)))"
  shows "JsEnum_consume H s = Some (Inl ParseError)"
proof -
  obtain doc s1 where d: "doc_consume H s = (doc, s1)"
    by (cases "doc_consume H s")
  with assms have "\<not> prefix ''export '' (dropWhile is_space s1)"
    by simp
  then have "PATTERN_ENUM_OPEN s1 = None"
    by (rule PATTERN_ENUM_OPEN_needs_export)
  with d show ?thesis
    by (simp add: JsEnum_consume_def consume_match_def)
qed

lemma JsEnum_consume_bad_body:
  assumes d: "doc_consume H s = (doc, s1)"
    and m: "consume_match PATTERN_ENUM_OPEN s1 = Inr (m, s2)"
    and r: "read_until_closing_bracket (consume_empty_lines s2) = Inr (body, s4)"
    and v: "consume_variants H body [] = Some (Inl e)"
  shows "JsEnum_consume H s = Some (Inl e)"
  by (simp add: JsEnum_consume_def Let_def d m r v)

text \<open>
  Claim C8. If the first line of the text after the documentation does not end in a
  comma, \<^verbatim>\<open>Variant.consume\<close> raises \<^verbatim>\<open>ParseError\<close>; if the text after the
  documentation and leading spaces does not start with \<^verbatim>\<open>export \<close>,
  \<^verbatim>\<open>JsEnum.consume\<close> raises \<^verbatim>\<open>ParseError\<close>; and an enum whose body starts
  with a line without the trailing comma is rejected as a whole by
  \<^verbatim>\<open>JsEnum.consume\<close>. The result is the exception alone: no variant, no enum and
  no remaining text is returned, so the caller's text stays what it was.
\<close>

theorem consume_malformed_ParseError:
  "(first_line (snd (doc_consume H s)) = [] \<or> last (first_line (snd (doc_consume H s))) \<noteq> CHR '',''
      \<longrightarrow> Variant_consume H s = Inl ParseError) \<and>
   (\<not> prefix ''export '' (dropWhile is_space (snd (doc_consume H s)))
      \<longrightarrow> JsEnum_consume H s = Some (Inl ParseError)) \<and>
   (doc_consume H s = (doc, s1) \<and> consume_match PATTERN_ENUM_OPEN s1 = Inr (m, s2) \<and>
    read_until_closing_bracket (consume_empty_lines s2) = Inr (body, s4) \<and> body \<noteq> [] \<and>
    (first_line (snd (doc_consume H body)) = [] \<or> last (first_line (snd (doc_consume H body))) \<noteq> CHR '','')
      \<longrightarrow> JsEnum_consume H s = Some (Inl ParseError))"
proof (intro conjI impI)
  assume "first_line (snd (doc_consume H s)) = [] \<or> last (first_line (snd (doc_consume H s))) \<noteq> CHR '',''"
  then show "Variant_consume H s = Inl ParseError"
    by (rule Variant_consume_no_comma)
next
  assume "\<not> prefix ''export '' (dropWhile is_space (snd (doc_consume H s)))"
  then show "JsEnum_consume H s = Some (Inl ParseError)"
    by (rule JsEnum_consume_no_export)
next
  assume a: "doc_consume H s = (doc, s1) \<and> consume_match PATTERN_ENUM_OPEN s1 = Inr (m, s2) \<and>
    read_until_closing_bracket (consume_empty_lines s2) = Inr (body, s4) \<and> body \<noteq> [] \<and>
    (first_line (snd (doc_consume H body)) = [] \<or> last (first_line (snd (doc_consume H body))) \<noteq> CHR '','')"
  then have "Variant_consume H body = Inl ParseError"
    using Variant_consume_no_comma [of H body] by simp
  with a have "consume_variants H body [] = Some (Inl ParseError)"
    using consume_variants_Inl [of body H ParseError "[]"] by simp
  with a show "JsEnum_consume H s = Some (Inl ParseError)"
    using JsEnum_consume_bad_body [of H s doc s1 m s2 body s4 ParseError] by simp
qed

subsection \<open>The sample inputs\<close>

lemma sample_doc_lines_plain:
  "take 3 (dropWhile is_space s) \<noteq> ''///'' \<Longrightarrow> sample_doc_lines s = ([], s)"
  by (subst sample_doc_lines.simps) simp

lemma sample_doc_consume_plain:
  "take 3 (dropWhile is_space s) \<noteq> ''///'' \<Longrightarrow> doc_consume sample_helpers s = (None, s)"
  by (simp add: sample_helpers_def sample_doc_consume_def sample_doc_lines_plain)

lemmas pattern_eval =
  is_space_def is_word_def is_alpha_char_def is_numeric_char_def newline_def dquote_def
  consume_match_def consume_empty_lines_def read_until_closing_bracket_def
  PATTERN_VARIANT_def PATTERN_ENUM_OPEN_def

lemma doc_consume_color_text: "doc_consume sample_helpers color_text = (None, color_text)"
  by (rule sample_doc_consume_plain) (simp add: color_text_def is_space_def)

lemma consume_match_color_text:
  "consume_match PATTERN_ENUM_OPEN color_text = Inr (''Color'', color_body @ [CHR ''}'', newline])"
  by (simp add: color_text_def color_body_def pattern_eval)

lemma read_color_body:
  "read_until_closing_bracket (consume_empty_lines (color_body @ [CHR ''}'', newline])) = Inr (color_body, [newline])"
  by (simp add: color_body_def pattern_eval)

lemma Variant_to_rust_samples:
  "Variant_to_rust sample_helpers red_variant = ''Red = '' @ [dquote] @ ''red'' @ [dquote] @ '',''"
  "Variant_to_rust sample_helpers blue_variant = ''Blue = '' @ [dquote] @ ''blue'' @ [dquote] @ '',''"
  by (simp_all add: Variant_to_rust_def join_nonempty_lines_def red_variant_def blue_variant_def
      sample_helpers_def sample_rust_documentation_def to_upper_def)

lemma JsEnum_to_rust_color: "JsEnum_to_rust sample_helpers color_enum = Inr color_rust"
proof -
  have m: "JsEnum_macro color_enum = Inr ''str_enum!''"
    using JsEnum_macro_of_type [OF JsEnum_gvt_samples(2)] by simp
  have v: "variants color_enum = [red_variant, blue_variant]" "e_ident color_enum = ''Color''"
    by (simp_all add: color_enum_def)
  have a: "add_indent sample_helpers = sample_add_indent"
    by (simp add: sample_helpers_def)
  show ?thesis
    unfolding JsEnum_to_rust_of_macro [OF m] v a
    by (simp add: Variant_to_rust_samples sample_add_indent_def color_rust_def newline_def dquote_def)
qed

lemma Variant_consume_plain:
  assumes "take 3 (dropWhile is_space s) \<noteq> ''///''"
    and "consume_match PATTERN_VARIANT s = Inr ((i, val), s2)"
  shows "Variant_consume sample_helpers s =
           Inr (\<lparr>documentation = None, v_ident = i, v_value = val\<rparr>, consume_empty_lines s2)"
  by (simp add: Variant_consume_def sample_doc_consume_plain [OF assms(1)] assms(2))

lemma Variant_consume_red:
  "Variant_consume sample_helpers color_body = Inr (red_variant, blue_line)"
proof -
  have "take 3 (dropWhile is_space color_body) \<noteq> ''///''"
    by (simp add: color_body_def is_space_def)
  moreover have "consume_match PATTERN_VARIANT color_body =
      Inr ((''Red'', dquote # ''red'' @ [dquote]), blue_line)"
    by (simp add: color_body_def blue_line_def pattern_eval)
  ultimately show ?thesis
    by (simp add: Variant_consume_plain red_variant_def blue_line_def consume_empty_lines_def
        newline_def dquote_def)
qed

lemma Variant_consume_blue:
  "Variant_consume sample_helpers blue_line = Inr (blue_variant, [])"
proof -
  have "take 3 (dropWhile is_space blue_line) \<noteq> ''///''"
    by (simp add: blue_line_def is_space_def)
  moreover have "consume_match PATTERN_VARIANT blue_line =
      Inr ((''Blue'', dquote # ''blue'' @ [dquote]), [])"
    by (simp add: blue_line_def pattern_eval)
  ultimately show ?thesis
    by (simp add: Variant_consume_plain blue_variant_def consume_empty_lines_def)
qed

lemma consume_variants_color:
  "consume_variants sample_helpers color_body [] = Some (Inr [red_variant, blue_variant])"
proof -
  have ne: "color_body \<noteq> []" "blue_line \<noteq> []"
    by (simp_all add: color_body_def blue_line_def)
  have "consume_variants sample_helpers color_body [] =
      consume_variants sample_helpers blue_line [red_variant]"
    by (subst consume_variants.simps) (simp add: ne Variant_consume_red)
  also have "\<dots> = consume_variants sample_helpers [] [red_variant, blue_variant]"
    by (subst consume_variants.simps) (simp add: ne Variant_consume_blue)
  also have "\<dots> = Some (Inr [red_variant, blue_variant])"
    by (subst consume_variants.simps) simp
  finally show ?thesis .
qed

lemma consume_empty_lines_newline: "consume_empty_lines [newline] = []"
  by (simp add: consume_empty_lines_def)

lemma JsEnum_consume_color:
  "JsEnum_consume sample_helpers color_text = Some (Inr (color_enum, []))"
  by (simp add: JsEnum_consume_def doc_consume_color_text consume_match_color_text
      read_color_body consume_variants_color color_enum_def consume_empty_lines_newline)

text \<open>
  Witness for C6: the text \<open>color_text\<close> is accepted with the sample helpers, and its
  two variants appear in its body \<open>color_body\<close> in the order \<^verbatim>\<open>Red\<close>,
  \<^verbatim>\<open>Blue\<close>, in which \<open>color_rust\<close> renders them.
\<close>

theorem JsEnum_consume_order_preserved_witness:
  "JsEnum_consume sample_helpers color_text = Some (Inr (color_enum, [])) \<and>
   appear_in_order sample_helpers color_body (variants color_enum) \<and>
   JsEnum_to_rust sample_helpers color_enum = Inr color_rust"
proof -
  have suf: "\<forall>s. suffix (snd (doc_consume sample_helpers s)) s"
    using sample_doc_consume_suffix by blast
  note t = JsEnum_consume_order_preserved [OF suf JsEnum_consume_color]
  from t obtain doc s1 m s2 body s4 where
    d: "doc_consume sample_helpers color_text = (doc, s1)"
    and m: "consume_match PATTERN_ENUM_OPEN s1 = Inr (m, s2)"
    and r: "read_until_closing_bracket (consume_empty_lines s2) = Inr (body, s4)"
    and a: "appear_in_order sample_helpers body (variants color_enum)"
    by blast
  from d have "s1 = color_text"
    by (simp add: doc_consume_color_text)
  with m have "s2 = color_body @ [CHR ''}'', newline]"
    by (simp add: consume_match_color_text)
  with r have "body = color_body"
    by (simp add: read_color_body)
  with a have "appear_in_order sample_helpers color_body (variants color_enum)"
    by simp
  with JsEnum_consume_color JsEnum_to_rust_color show ?thesis
    by simp
qed

lemma doc_consume_max_value:
  "doc_consume sample_helpers max_value_text = (Some ['' The largest.''], max_value_rest)"
proof -
  have r: "take 3 (dropWhile is_space max_value_rest) \<noteq> ''///''"
    by (simp add: max_value_rest_def is_space_def)
  have "sample_doc_lines max_value_text = ('' The largest.'' # fst (sample_doc_lines max_value_rest),
      snd (sample_doc_lines max_value_rest))"
    by (subst sample_doc_lines.simps)
      (simp add: max_value_text_def max_value_rest_def min_value_line_def is_space_def newline_def
        split: prod.splits)
  then have "sample_doc_lines max_value_text = (['' The largest.''], max_value_rest)"
    by (simp add: sample_doc_lines_plain [OF r])
  then show ?thesis
    by (simp add: sample_helpers_def sample_doc_consume_def)
qed

lemma Variant_consume_max_value:
  "Variant_consume sample_helpers max_value_text = Inr (max_value_variant, min_value_line)"
proof -
  have "consume_match PATTERN_VARIANT max_value_rest =
      Inr ((''max_value'', ''12''), newline # min_value_line)"
    by (simp add: max_value_rest_def min_value_line_def pattern_eval)
  moreover have "consume_empty_lines (newline # min_value_line) = min_value_line"
    by (simp add: consume_empty_lines_def min_value_line_def newline_def)
  ultimately show ?thesis
    by (simp add: Variant_consume_def doc_consume_max_value max_value_variant_def)
qed

text \<open>
  Witness for C7: \<^verbatim>\<open>max_value = 12,\<close> below one documentation line is parsed to
  \<open>max_value_variant\<close> and emitted as \<^verbatim>\<open>MaxValue = 12,\<close> below that line.
\<close>

theorem Variant_to_rust_line_witness:
  "Variant_consume sample_helpers max_value_text = Inr (max_value_variant, min_value_line) \<and>
   Variant_to_rust sample_helpers max_value_variant = ''/// The largest.'' @ [newline] @ ''MaxValue = 12,'' \<and>
   (\<exists>n. take n max_value_rest = ''  max_value = 12,'' @ [newline])"
proof -
  note t = Variant_to_rust_line [of sample_helpers max_value_variant max_value_text min_value_line]
  have sp: "takeWhile is_space max_value_rest = ''  ''"
    by (simp add: max_value_rest_def is_space_def)
  have rd: "rust_documentation sample_helpers (documentation max_value_variant) = ''/// The largest.''"
    by (simp add: sample_helpers_def sample_rust_documentation_def max_value_variant_def)
  have rd': "rust_documentation sample_helpers (Some ['' The largest.'']) = ''/// The largest.''"
    by (simp add: sample_helpers_def sample_rust_documentation_def)
  have cc: "snake_to_camel_case sample_helpers ''max_value'' = ''MaxValue''"
    by (simp add: sample_helpers_def to_upper_def)
  have vv: "v_value max_value_variant = ''12''" "v_ident max_value_variant = ''max_value''"
    by (simp_all add: max_value_variant_def)
  from t have "Variant_to_rust sample_helpers max_value_variant = ''/// The largest.'' @ [newline] @ ''MaxValue = 12,''"
    by (simp add: rd rd' cc vv)
  moreover from t Variant_consume_max_value
  have "\<exists>n. take n max_value_rest = ''  max_value = 12,'' @ [newline]"
    by (simp add: doc_consume_max_value sp vv)
  ultimately show ?thesis
    using Variant_consume_max_value by simp
qed

text \<open>
  Witness for C8: \<^verbatim>\<open>Red = 1\<close> without its comma, a header without
  \<^verbatim>\<open>export\<close>, and an enum whose only body line has no comma.
\<close>

theorem consume_malformed_ParseError_witness:
  "Variant_consume sample_helpers no_comma_text = Inl ParseError \<and>
   last (first_line (snd (doc_consume sample_helpers no_comma_text))) = CHR ''1'' \<and>
   JsEnum_consume sample_helpers no_export_text = Some (Inl ParseError) \<and>
   dropWhile is_space (snd (doc_consume sample_helpers no_export_text)) = no_export_text \<and>
   JsEnum_consume sample_helpers no_comma_enum_text = Some (Inl ParseError)"
proof -
  have d1: "doc_consume sample_helpers no_comma_text = (None, no_comma_text)"
    by (rule sample_doc_consume_plain) (simp add: no_comma_text_def is_space_def)
  have l1: "last (first_line no_comma_text) = CHR ''1''"
    by (simp add: no_comma_text_def first_line_def newline_def)
  have d2: "doc_consume sample_helpers no_export_text = (None, no_export_text)"
    by (rule sample_doc_consume_plain) (simp add: no_export_text_def is_space_def)
  have p2: "dropWhile is_space no_export_text = no_export_text"
    by (simp add: no_export_text_def is_space_def)
  have q2: "\<not> prefix ''export '' no_export_text"
    by (simp add: no_export_text_def)
  have a: "Variant_consume sample_helpers no_comma_text = Inl ParseError"
    using consume_malformed_ParseError [of sample_helpers no_comma_text] by (simp add: d1 l1)
  have b: "JsEnum_consume sample_helpers no_export_text = Some (Inl ParseError)"
    using consume_malformed_ParseError [of sample_helpers no_export_text] by (simp add: d2 p2 q2)
  have d3: "doc_consume sample_helpers no_comma_enum_text = (None, no_comma_enum_text)"
    by (rule sample_doc_consume_plain) (simp add: no_comma_enum_text_def is_space_def)
  have m3: "consume_match PATTERN_ENUM_OPEN no_comma_enum_text =
      Inr (''Color'', no_comma_line @ [CHR ''}'', newline])"
    by (simp add: no_comma_enum_text_def no_comma_line_def pattern_eval)
  have r3: "read_until_closing_bracket (consume_empty_lines (no_comma_line @ [CHR ''}'', newline])) =
      Inr (no_comma_line, [newline])"
    by (simp add: no_comma_line_def pattern_eval)
  have d4: "doc_consume sample_helpers no_comma_line = (None, no_comma_line)"
    by (rule sample_doc_consume_plain) (simp add: no_comma_line_def is_space_def)
  have l4: "last (first_line no_comma_line) = CHR ''1''"
    by (simp add: no_comma_line_def first_line_def newline_def)
  have n4: "no_comma_line \<noteq> []"
    by (simp add: no_comma_line_def)
  have c: "JsEnum_consume sample_helpers no_comma_enum_text = Some (Inl ParseError)"
    using consume_malformed_ParseError [of sample_helpers no_comma_enum_text None no_comma_enum_text "''Color''"
        "no_comma_line @ [CHR ''}'', newline]" no_comma_line "[newline]"]
    by (simp add: d3 m3 r3 d4 l4 n4)
  from a b c show ?thesis
    by (simp add: d1 l1 d2 p2)
qed

subsection \<open>Repeated invocations\<close>

lemma all_same_from_drop:
  "fst (all_same_from t vs pos) = all_same_type t (drop pos vs)"
proof (induction t vs pos rule: all_same_from.induct)
  case (1 first_ty vs pos)
  show ?case
  proof (cases "pos < length vs")
    case True
    then have d: "drop pos vs = vs ! pos # drop (Suc pos) vs"
      by (simp add: Cons_nth_drop_Suc)
    show ?thesis
    proof (cases "Variant_get_value_type (vs ! pos)")
      case (Inl e)
      with True d show ?thesis
        by (subst all_same_from.simps) simp
    next
      case (Inr ty)
      show ?thesis
      proof (cases "ty = first_ty")
        case same: True
        from 1 [OF True Inr same] True Inr same d show ?thesis
          by (subst all_same_from.simps) simp
      next
        case False
        with True Inr d show ?thesis
          by (subst all_same_from.simps) simp
      qed
    qed
  next
    case False
    then show ?thesis
      by (subst all_same_from.simps) simp
  qed
qed

lemma JsEnum_get_value_type_at_eq:
  "JsEnum_get_value_type_at self h = (JsEnum_get_value_type (h self), h)"
proof (cases "variants (h self)")
  case Nil
  then show ?thesis
    by (simp add: JsEnum_get_value_type_at_def JsEnum_get_value_type_def gen_next_def)
next
  case (Cons v vs)
  show ?thesis
  proof (cases "Variant_get_value_type v")
    case (Inl e)
    with Cons show ?thesis
      by (simp add: JsEnum_get_value_type_at_def JsEnum_get_value_type_def gen_next_def)
  next
    case (Inr first_ty)
    have "fst (all_same_from first_ty (v # vs) (Suc 0)) = all_same_type first_ty vs"
      using all_same_from_drop [of first_ty "v # vs" "Suc 0"] by simp
    with Cons Inr show ?thesis
      by (cases "all_same_from first_ty (v # vs) (Suc 0)")
        (auto simp: JsEnum_get_value_type_at_def JsEnum_get_value_type_def gen_next_def
          split: sum.splits)
  qed
qed

lemma JsEnum_macro_at_eq:
  "JsEnum_macro_at self h = (JsEnum_macro (h self), h)"
  by (simp add: JsEnum_macro_at_def JsEnum_macro_def JsEnum_get_value_type_at_eq
      split: sum.splits option.splits)

lemma JsEnum_to_rust_at_eq:
  "JsEnum_to_rust_at H self h = (JsEnum_to_rust H (h self), h)"
  by (simp add: JsEnum_to_rust_at_def JsEnum_to_rust_def JsEnum_macro_at_eq Let_def
      split: sum.splits)

lemma call_n_reads_only:
  assumes "\<And>h. f h = (g h, h)"
  shows "call_n n f h = (replicate n (g h), h)"
  by (induction n) (simp_all add: assms)

text \<open>
  Claim C9. With the enum in a store: any number of invocations of
  \<^verbatim>\<open>JsEnum.to_rust\<close> on the same object, one after the other, all return the same
  text (or the same exception), the one the emitter gives for the object as stored, and
  leave the store as it was; the same holds for \<^verbatim>\<open>JsEnum.get_value_type\<close>, whose
  generator starts afresh in every call. In particular two invocations of the emitter
  agree, and type inference returns the same before and after an emission on any object.
  None of this holds of a method that writes to its object or keeps its generator.
\<close>

theorem JsEnum_emission_deterministic:
  "call_n n (JsEnum_to_rust_at H self) h = (replicate n (JsEnum_to_rust H (h self)), h) \<and>
   call_n n (JsEnum_get_value_type_at self) h = (replicate n (JsEnum_get_value_type (h self)), h) \<and>
   (case JsEnum_to_rust_at H self h of
      (r1, h1) \<Rightarrow> (case JsEnum_to_rust_at H self h1 of (r2, h2) \<Rightarrow> r1 = r2 \<and> h2 = h)) \<and>
   (case JsEnum_get_value_type_at self h of
      (r1, h1) \<Rightarrow> (case JsEnum_to_rust_at H other h1 of
         (r2, h2) \<Rightarrow> (case JsEnum_get_value_type_at self h2 of (r3, h3) \<Rightarrow> r1 = r3 \<and> h3 = h)))"
proof (intro conjI)
  show "call_n n (JsEnum_to_rust_at H self) h = (replicate n (JsEnum_to_rust H (h self)), h)"
    by (rule call_n_reads_only) (rule JsEnum_to_rust_at_eq)
  show "call_n n (JsEnum_get_value_type_at self) h = (replicate n (JsEnum_get_value_type (h self)), h)"
    by (rule call_n_reads_only) (rule JsEnum_get_value_type_at_eq)
  show "case JsEnum_to_rust_at H self h of
      (r1, h1) \<Rightarrow> (case JsEnum_to_rust_at H self h1 of (r2, h2) \<Rightarrow> r1 = r2 \<and> h2 = h)"
    by (simp add: JsEnum_to_rust_at_eq)
  show "case JsEnum_get_value_type_at self h of
      (r1, h1) \<Rightarrow> (case JsEnum_to_rust_at H other h1 of
         (r2, h2) \<Rightarrow> (case JsEnum_get_value_type_at self h2 of (r3, h3) \<Rightarrow> r1 = r3 \<and> h3 = h))"
    by (simp add: JsEnum_to_rust_at_eq JsEnum_get_value_type_at_eq)
qed

subsection \<open>The two macro invocations on the sample enums\<close>

lemma Variant_to_rust_level:
  "Variant_to_rust sample_helpers low_variant = ''Low = 0,''"
  "Variant_to_rust sample_helpers high_variant = ''High = 1,''"
  by (simp_all add: Variant_to_rust_def join_nonempty_lines_def low_variant_def high_variant_def
      sample_helpers_def sample_rust_documentation_def to_upper_def)

text \<open>
  Witness for C3: \<open>level_enum\<close> (integers) is emitted as \<open>level_rust\<close>, inside
  \<^verbatim>\<open>int_enum!\<close>; \<open>color_enum\<close> (strings) as \<open>color_rust\<close>, inside
  \<^verbatim>\<open>str_enum!\<close>; the empty enum is not emitted.
\<close>

theorem JsEnum_macro_selection_witness:
  "JsEnum_get_value_type level_enum = Inr PyInt \<and> JsEnum_macro level_enum = Inr ''int_enum!'' \<and>
   JsEnum_to_rust sample_helpers level_enum = Inr level_rust \<and>
   JsEnum_get_value_type color_enum = Inr PyStr \<and> JsEnum_macro color_enum = Inr ''str_enum!'' \<and>
   JsEnum_to_rust sample_helpers color_enum = Inr color_rust \<and>
   JsEnum_to_rust sample_helpers empty_enum = Inl (ValueError_empty_enum empty_enum)"
proof -
  note tl = JsEnum_macro_selection [of level_enum "''int_enum!''" PyInt sample_helpers]
  note tc = JsEnum_macro_selection [of color_enum "''str_enum!''" PyStr sample_helpers]
  note te = JsEnum_macro_selection [of empty_enum _ _ sample_helpers "ValueError_empty_enum empty_enum"]
  have a: "add_indent sample_helpers = sample_add_indent"
    by (simp add: sample_helpers_def)
  have vl: "variants level_enum = [low_variant, high_variant]" "e_ident level_enum = ''Level''"
    by (simp_all add: level_enum_def)
  have vc: "variants color_enum = [red_variant, blue_variant]" "e_ident color_enum = ''Color''"
    by (simp_all add: color_enum_def)
  have ml: "JsEnum_macro level_enum = Inr ''int_enum!''"
    using tl JsEnum_gvt_samples(1) by simp
  have mc: "JsEnum_macro color_enum = Inr ''str_enum!''"
    using tc JsEnum_gvt_samples(2) by simp
  from tl JsEnum_gvt_samples(1)
  have "JsEnum_to_rust sample_helpers level_enum =
      Inr (''int_enum!'' @ '' {'' @ [newline] @
           add_indent sample_helpers (''pub enum '' @ e_ident level_enum @ '' {'' @ [newline] @
             add_indent sample_helpers
               (str_join [newline] (map (Variant_to_rust sample_helpers) (variants level_enum))) @
             [newline] @ ''}'') @
           [newline] @ ''}'')"
    by simp
  then have rl: "JsEnum_to_rust sample_helpers level_enum = Inr level_rust"
    unfolding vl a
    by (simp add: Variant_to_rust_level sample_add_indent_def level_rust_def newline_def)
  from tc JsEnum_gvt_samples(2)
  have "JsEnum_to_rust sample_helpers color_enum =
      Inr (''str_enum!'' @ '' {'' @ [newline] @
           add_indent sample_helpers (''pub enum '' @ e_ident color_enum @ '' {'' @ [newline] @
             add_indent sample_helpers
               (str_join [newline] (map (Variant_to_rust sample_helpers) (variants color_enum))) @
             [newline] @ ''}'') @
           [newline] @ ''}'')"
    by simp
  then have rc: "JsEnum_to_rust sample_helpers color_enum = Inr color_rust"
    unfolding vc a
    by (simp add: Variant_to_rust_samples sample_add_indent_def color_rust_def newline_def dquote_def)
  have re: "JsEnum_to_rust sample_helpers empty_enum = Inl (ValueError_empty_enum empty_enum)"
    using te by (simp add: JsEnum_get_value_type_def empty_enum_def)
  from ml mc rl rc re JsEnum_gvt_samples show ?thesis
    by simp
qed

lemma sample_heap_0: "sample_heap 0 = color_enum"
  by (simp add: sample_heap_def)

text \<open>
  Witness for C9: two emissions and three type inferences on the object at address 0 of
  \<open>sample_heap\<close>, which is \<open>color_enum\<close>.
\<close>

theorem JsEnum_emission_deterministic_witness:
  "call_n 2 (JsEnum_to_rust_at sample_helpers 0) sample_heap = ([Inr color_rust, Inr color_rust], sample_heap) \<and>
   call_n 3 (JsEnum_get_value_type_at 0) sample_heap = ([Inr PyStr, Inr PyStr, Inr PyStr], sample_heap)"
  using JsEnum_emission_deterministic [of 2 sample_helpers 0 sample_heap] JsEnum_emission_deterministic [of 3 sample_helpers 0 sample_heap]
  by (simp add: sample_heap_0 JsEnum_to_rust_color JsEnum_gvt_samples numeral_2_eq_2 numeral_3_eq_3)

end
